theory Spec2Isabelle
  imports Main
begin

unbundle bit_operations_syntax

section \<open>The Game Boy tile editor: data model\<close>

text \<open>
  The module \<^verbatim>\<open>Elby.py\<close> keeps an 8x8 grid of colour indices (\<^verbatim>\<open>self.grid_data\<close>, a list
  of eight row lists, each built afresh, so no two rows share storage) and an editable text
  field (\<^verbatim>\<open>self.hex_entry\<close>). Python integers are unbounded: they are \<^typ>\<open>int\<close> here,
  \<^verbatim>\<open><<\<close> is \<^const>\<open>push_bit\<close>, \<^verbatim>\<open>>>\<close> is \<^const>\<open>drop_bit\<close> (floor division by a power
  of two, also on negative numbers), \<^verbatim>\<open>|\<close> and \<^verbatim>\<open>&\<close> are \<open>OR\<close> and \<open>AND\<close> on two's
  complement. A text is a \<^typ>\<open>string\<close> whose characters stand for the code points 0 to 255;
  texts with code points above 255 are outside this model. The canvas, the preview and the
  dialog boxes are not modelled; the dialog shown by \<^verbatim>\<open>hex_changed\<close> is its outcome.
\<close>

datatype py_exn = IndexError | KeyError | ValueError

type_synonym grid = "int list list"

record editor =
  grid_data :: grid
  hex_entry :: string

definition GRID :: nat where
  "GRID = 8"

text \<open>\<^verbatim>\<open>GB_MAPPING\<close> is a dictionary literal; its items in insertion order.\<close>

definition GB_MAPPING_items :: "(int \<times> (int \<times> int)) list" where
  "GB_MAPPING_items = [(0, (1, 1)), (1, (1, 0)), (2, (0, 0)), (3, (0, 1))]"

definition GB_MAPPING :: "int \<rightharpoonup> (int \<times> int)" where
  "GB_MAPPING = map_of GB_MAPPING_items"

text \<open>
  \<^verbatim>\<open>GB_REVERSE = {v: k for k, v in GB_MAPPING.items()}\<close>: the items are inserted in order,
  a later one replacing an earlier one with the same key.
\<close>

definition GB_REVERSE :: "(int \<times> int) \<rightharpoonup> int" where
  "GB_REVERSE = foldl (\<lambda>m (k, v). m(v \<mapsto> k)) Map.empty GB_MAPPING_items"

text \<open>\<^verbatim>\<open>xs[i]\<close> for an index that is not negative: out of range raises IndexError.\<close>

definition getitem :: "'a list \<Rightarrow> nat \<Rightarrow> py_exn + 'a" where
  "getitem xs i = (if i < length xs then Inr (xs ! i) else Inl IndexError)"

text \<open>\<^verbatim>\<open>range(start, stop, step)\<close> for a positive step.\<close>

definition py_range :: "nat \<Rightarrow> nat \<Rightarrow> nat \<Rightarrow> nat list" where
  "py_range start stop step = filter (\<lambda>i. (i - start) mod step = 0) [start..<stop]"

section \<open>Encoding: grid to hex text\<close>

text \<open>
  The inner loop of \<^verbatim>\<open>grid_to_tile_bytes\<close> over the columns \<open>x\<close> of row \<open>y\<close>, with the
  running \<^verbatim>\<open>low\<close> and \<^verbatim>\<open>high\<close>. The loop runs over \<^verbatim>\<open>range(GRID)\<close> only, where
  \<open>7 - x\<close> is never negative.
\<close>

fun row_loop :: "grid \<Rightarrow> nat \<Rightarrow> nat list \<Rightarrow> int \<times> int \<Rightarrow> py_exn + (int \<times> int)" where
  "row_loop g y [] (low, high) = Inr (low, high)"
| "row_loop g y (x # xs) (low, high) =
     (case getitem g y of Inl e \<Rightarrow> Inl e | Inr row \<Rightarrow>
      (case getitem row x of Inl e \<Rightarrow> Inl e | Inr c \<Rightarrow>
       (case GB_MAPPING c of None \<Rightarrow> Inl KeyError | Some (lo, hi) \<Rightarrow>
          row_loop g y xs (low OR push_bit (7 - x) lo, high OR push_bit (7 - x) hi))))"

fun tile_loop :: "grid \<Rightarrow> nat list \<Rightarrow> int list \<Rightarrow> py_exn + int list" where
  "tile_loop g [] tile = Inr tile"
| "tile_loop g (y # ys) tile =
     (case row_loop g y [0..<GRID] (0, 0) of Inl e \<Rightarrow> Inl e
      | Inr (low, high) \<Rightarrow> tile_loop g ys (tile @ [low, high]))"

definition grid_to_tile_bytes :: "grid \<Rightarrow> py_exn + int list" where
  "grid_to_tile_bytes g = tile_loop g [0..<GRID] []"

fun pairs_loop :: "int list \<Rightarrow> nat list \<Rightarrow> int list \<Rightarrow> py_exn + int list" where
  "pairs_loop tile_bytes [] out = Inr out"
| "pairs_loop tile_bytes (i # is) out =
     (case getitem tile_bytes i of Inl e \<Rightarrow> Inl e | Inr a \<Rightarrow>
      (case getitem tile_bytes (i + 1) of Inl e \<Rightarrow> Inl e | Inr b \<Rightarrow>
         pairs_loop tile_bytes is (out @ [b, a])))"

definition to_little_endian_pairs :: "int list \<Rightarrow> py_exn + int list" where
  "to_little_endian_pairs tile_bytes = pairs_loop tile_bytes (py_range 0 16 2) []"

text \<open>
  The format \<^verbatim>\<open>f"{b:02X}"\<close>: uppercase hexadecimal, zero-padded to a width of two, the
  sign of a negative number counting for the width.
\<close>

definition hex_digit :: "nat \<Rightarrow> char" where
  "hex_digit d = ''0123456789ABCDEF'' ! (d mod 16)"

fun hex_of_nat :: "nat \<Rightarrow> string" where
  "hex_of_nat n = (if n < 16 then [hex_digit n] else hex_of_nat (n div 16) @ [hex_digit (n mod 16)])"

declare hex_of_nat.simps [simp del]

definition zero_pad :: "nat \<Rightarrow> string \<Rightarrow> string" where
  "zero_pad w s = replicate (w - length s) (CHR ''0'') @ s"

definition format_02X :: "int \<Rightarrow> string" where
  "format_02X b = (if b < 0 then CHR ''-'' # zero_pad 1 (hex_of_nat (nat (- b)))
                   else zero_pad 2 (hex_of_nat (nat b)))"

fun join :: "string \<Rightarrow> string list \<Rightarrow> string" where
  "join sep [] = []"
| "join sep [s] = s"
| "join sep (s # t # ts) = s @ sep @ join sep (t # ts)"

text \<open>
  The text that \<^verbatim>\<open>_update_hex_display\<close> computes from the grid, and the method itself,
  which replaces the content of the text field by it.
\<close>

definition hex_display :: "grid \<Rightarrow> py_exn + string" where
  "hex_display g =
     (case grid_to_tile_bytes g of Inl e \<Rightarrow> Inl e | Inr tile \<Rightarrow>
      (case to_little_endian_pairs tile of Inl e \<Rightarrow> Inl e | Inr swapped \<Rightarrow>
         Inr (join '' '' (map format_02X swapped))))"

definition update_hex_display :: "editor \<Rightarrow> py_exn + editor" where
  "update_hex_display self =
     (case hex_display (grid_data self) of Inl e \<Rightarrow> Inl e
      | Inr hex_str \<Rightarrow> Inr (self\<lparr>hex_entry := hex_str\<rparr>))"

section \<open>Decoding: hex text to grid\<close>

text \<open>
  Whitespace for \<^verbatim>\<open>str.strip()\<close> and \<^verbatim>\<open>str.split()\<close> among the code points 0 to 255:
  tab to carriage return, the four separators 28 to 31, space, next line (133) and
  no-break space (160).
\<close>

definition is_space :: "char \<Rightarrow> bool" where
  "is_space c = (let n = (of_char c :: nat) in
     (9 \<le> n \<and> n \<le> 13) \<or> (28 \<le> n \<and> n \<le> 32) \<or> n = 133 \<or> n = 160)"

definition strip :: "string \<Rightarrow> string" where
  "strip s = rev (dropWhile is_space (rev (dropWhile is_space s)))"

text \<open>\<^verbatim>\<open>split()\<close> without argument: the maximal runs of characters that are not whitespace.\<close>

fun split_from :: "string \<Rightarrow> string \<Rightarrow> string list" where
  "split_from cur [] = (if cur = [] then [] else [cur])"
| "split_from cur (c # cs) =
     (if is_space c then (if cur = [] then split_from [] cs else cur # split_from [] cs)
      else split_from (cur @ [c]) cs)"

definition split :: "string \<Rightarrow> string list" where
  "split s = split_from [] s"

text \<open>
  \<^verbatim>\<open>int(p, 16)\<close> on a token without whitespace, after CPython's \<^verbatim>\<open>PyLong_FromString\<close>:
  an optional sign, an optional prefix \<^verbatim>\<open>0x\<close> or \<^verbatim>\<open>0X\<close> (after which one underscore may
  follow), then digits in base 16 with single underscores between them. \<open>None\<close> is
  ValueError. No character above 127 is a decimal digit among the code points 0 to 255.
  \<open>hex_values\<close> is the part of CPython's table of digit values that lies below the base.
\<close>

definition hex_values :: "(char \<times> nat) list" where
  "hex_values =
     [(CHR ''0'', 0), (CHR ''1'', 1), (CHR ''2'', 2), (CHR ''3'', 3), (CHR ''4'', 4),
      (CHR ''5'', 5), (CHR ''6'', 6), (CHR ''7'', 7), (CHR ''8'', 8), (CHR ''9'', 9),
      (CHR ''a'', 10), (CHR ''b'', 11), (CHR ''c'', 12), (CHR ''d'', 13), (CHR ''e'', 14),
      (CHR ''f'', 15),
      (CHR ''A'', 10), (CHR ''B'', 11), (CHR ''C'', 12), (CHR ''D'', 13), (CHR ''E'', 14),
      (CHR ''F'', 15)]"

definition digit_value :: "char \<Rightarrow> nat option" where
  "digit_value c = map_of hex_values c"

fun scan_digits :: "char \<Rightarrow> int \<Rightarrow> string \<Rightarrow> int option" where
  "scan_digits prev z [] = (if prev = CHR ''_'' then None else Some z)"
| "scan_digits prev z (c # cs) =
     (if c = CHR ''_'' then (if prev = CHR ''_'' then None else scan_digits c z cs)
      else (case digit_value c of None \<Rightarrow> None
            | Some d \<Rightarrow> scan_digits c (16 * z + int d) cs))"

definition skip_sign :: "string \<Rightarrow> bool \<times> string" where
  "skip_sign s = (case s of [] \<Rightarrow> (False, s)
     | c # r \<Rightarrow> if c = CHR ''+'' then (False, r) else if c = CHR ''-'' then (True, r)
                else (False, s))"

definition skip_prefix :: "string \<Rightarrow> string" where
  "skip_prefix s = (case s of
       c # d # r \<Rightarrow>
         if c = CHR ''0'' \<and> (d = CHR ''x'' \<or> d = CHR ''X'')
         then (case r of [] \<Rightarrow> r | u # r' \<Rightarrow> if u = CHR ''_'' then r' else r)
         else s
     | _ \<Rightarrow> s)"

definition int16 :: "string \<Rightarrow> int option" where
  "int16 p = (let (neg, s) = skip_sign p; body = skip_prefix s in
     if body = [] \<or> hd body = CHR ''_'' then None
     else map_option (\<lambda>z. if neg then - z else z) (scan_digits (CHR 0x00) 0 body))"

text \<open>\<^verbatim>\<open>[int(p, 16) for p in parts]\<close>: the first token that fails raises ValueError.\<close>

fun parse_all :: "string list \<Rightarrow> int list option" where
  "parse_all [] = Some []"
| "parse_all (p # ps) =
     (case int16 p of None \<Rightarrow> None
      | Some n \<Rightarrow> (case parse_all ps of None \<Rightarrow> None | Some ns \<Rightarrow> Some (n # ns)))"

text \<open>The loop of \<^verbatim>\<open>hex_changed\<close> that undoes the swap.\<close>

fun unswap_loop :: "int list \<Rightarrow> nat list \<Rightarrow> int list \<Rightarrow> py_exn + int list" where
  "unswap_loop bytes_le [] tile = Inr tile"
| "unswap_loop bytes_le (i # is) tile =
     (case getitem bytes_le i of Inl e \<Rightarrow> Inl e | Inr b \<Rightarrow>
      (case getitem bytes_le (i + 1) of Inl e \<Rightarrow> Inl e | Inr a \<Rightarrow>
         unswap_loop bytes_le is (tile @ [a, b])))"

text \<open>\<^verbatim>\<open>self.grid_data[row][x] = idx\<close>: an assignment in place, IndexError out of range.\<close>

definition set_cell :: "grid \<Rightarrow> nat \<Rightarrow> nat \<Rightarrow> int \<Rightarrow> py_exn + grid" where
  "set_cell g row x idx =
     (if row < length g then
        (if x < length (g ! row) then Inr (g[row := (g ! row)[x := idx]])
         else Inl IndexError)
      else Inl IndexError)"

text \<open>
  The nested loop inside the \<^verbatim>\<open>try\<close> of \<^verbatim>\<open>hex_changed\<close>. It writes the grid cell by
  cell; when an exception is raised the result carries it together with the grid as
  written so far.
\<close>

fun decode_cols :: "int \<Rightarrow> int \<Rightarrow> nat \<Rightarrow> nat list \<Rightarrow> grid \<Rightarrow> py_exn option \<times> grid" where
  "decode_cols low high row [] g = (None, g)"
| "decode_cols low high row (x # xs) g =
     (let bit = 7 - x;
          lo = drop_bit bit low AND 1;
          hi = drop_bit bit high AND 1
      in case GB_REVERSE (lo, hi) of None \<Rightarrow> (Some KeyError, g)
         | Some idx \<Rightarrow>
             (case set_cell g row x idx of Inl e \<Rightarrow> (Some e, g)
              | Inr g' \<Rightarrow> decode_cols low high row xs g'))"

fun decode_rows :: "int list \<Rightarrow> nat list \<Rightarrow> grid \<Rightarrow> py_exn option \<times> grid" where
  "decode_rows tile [] g = (None, g)"
| "decode_rows tile (row # rows) g =
     (case getitem tile (2 * row) of Inl e \<Rightarrow> (Some e, g) | Inr low \<Rightarrow>
      (case getitem tile (2 * row + 1) of Inl e \<Rightarrow> (Some e, g) | Inr high \<Rightarrow>
       (case decode_cols low high row [0..<8] g of
          (Some e, g') \<Rightarrow> (Some e, g')
        | (None, g') \<Rightarrow> decode_rows tile rows g')))"

text \<open>
  The outcome of \<^verbatim>\<open>hex_changed\<close>: \<open>Decoded\<close> when it reaches the redraw, one constructor
  for each of its three error dialogs ("Hex must contain exactly 16 bytes.", "Invalid hex
  byte detected.", "Hex does not map to valid GB color codes."), and \<open>Uncaught\<close> for an
  exception raised outside its \<^verbatim>\<open>try\<close> blocks.
\<close>

datatype outcome = Decoded | MalformedLength | InvalidHexByte | InvalidColorBits
  | Uncaught py_exn

text \<open>The part of \<^verbatim>\<open>hex_changed\<close> after the tokens are parsed.\<close>

definition decode_bytes :: "int list \<Rightarrow> editor \<Rightarrow> outcome \<times> editor" where
  "decode_bytes bytes_le self =
     (case unswap_loop bytes_le (py_range 0 16 2) [] of
        Inl e \<Rightarrow> (Uncaught e, self)
      | Inr tile \<Rightarrow>
          (case decode_rows tile [0..<8] (grid_data self) of
             (Some e, g') \<Rightarrow> (InvalidColorBits, self\<lparr>grid_data := g'\<rparr>)
           | (None, g') \<Rightarrow> (Decoded, self\<lparr>grid_data := g'\<rparr>)))"

definition hex_changed :: "editor \<Rightarrow> outcome \<times> editor" where
  "hex_changed self =
     (let text = strip (hex_entry self);
          parts = split text
      in if length parts \<noteq> 16 then (MalformedLength, self)
         else (case parse_all parts of
                 None \<Rightarrow> (InvalidHexByte, self)
               | Some bytes_le \<Rightarrow> decode_bytes bytes_le self))"

section \<open>Closed forms and validity predicates\<close>

text \<open>What either swapping loop computes on a list of sixteen elements.\<close>

definition swap_pairs :: "'a list \<Rightarrow> 'a list" where
  "swap_pairs b = concat (map (\<lambda>r. [b ! (2 * r + 1), b ! (2 * r)]) [0..<8])"

text \<open>
  Grids as the editor keeps them: eight rows of eight cells. A valid grid has every cell
  among the four colour indices.
\<close>

definition valid_grid :: "grid \<Rightarrow> bool" where
  "valid_grid g = (length g = 8 \<and> list_all (\<lambda>row. length row = 8 \<and> list_all (\<lambda>c. c \<in> {0, 1, 2, 3}) row) g)"

definition grid_8x8 :: "grid \<Rightarrow> bool" where
  "grid_8x8 g = (length g = 8 \<and> list_all (\<lambda>row. length row = 8) g)"

text \<open>The two bits of a colour index, and the byte a row contributes to one bit plane.\<close>

definition lo_of :: "int \<Rightarrow> int" where
  "lo_of c = (case GB_MAPPING c of Some (lo, hi) \<Rightarrow> lo | None \<Rightarrow> 0)"

definition hi_of :: "int \<Rightarrow> int" where
  "hi_of c = (case GB_MAPPING c of Some (lo, hi) \<Rightarrow> hi | None \<Rightarrow> 0)"

definition plane :: "(int \<Rightarrow> int) \<Rightarrow> int list \<Rightarrow> nat list \<Rightarrow> int \<Rightarrow> int" where
  "plane sel row xs a = fold (\<lambda>x a. a OR push_bit (7 - x) (sel (row ! x))) xs a"

text \<open>The sixteen tile bytes of a grid.\<close>

definition tile_of :: "grid \<Rightarrow> int list" where
  "tile_of g = concat (map (\<lambda>y. [plane lo_of (g ! y) [0..<8] 0, plane hi_of (g ! y) [0..<8] 0]) [0..<8])"

text \<open>The cell, row and grid that the decoding loop writes from the tile bytes.\<close>

definition decoded_cell :: "int \<Rightarrow> int \<Rightarrow> nat \<Rightarrow> int" where
  "decoded_cell low high x =
     (case GB_REVERSE (drop_bit (7 - x) low AND 1, drop_bit (7 - x) high AND 1) of
        Some idx \<Rightarrow> idx | None \<Rightarrow> 0)"

definition decoded_row :: "int list \<Rightarrow> nat \<Rightarrow> int list" where
  "decoded_row tile row = map (decoded_cell (tile ! (2 * row)) (tile ! (2 * row + 1))) [0..<8]"

definition decoded_grid :: "int list \<Rightarrow> grid" where
  "decoded_grid tile = map (decoded_row tile) [0..<8]"

section \<open>The encoder as the specification describes it\<close>

text \<open>
  Written from the specification's words, not from the code: the fixed table from index
  to (lowBit, highBit); the byte of a row in one plane, with the bit of column \<open>x\<close> at bit
  position \<open>7 - x\<close>; the sixteen tile bytes, row-major, low then high; the swap of each
  adjacent pair; two uppercase hex digits for a byte; tokens separated by single spaces.
\<close>

definition spec_toBits :: "int \<Rightarrow> int \<times> int" where
  "spec_toBits i = (if i = 0 then (1, 1) else if i = 1 then (1, 0) else if i = 2 then (0, 0) else (0, 1))"

definition spec_plane_byte :: "(nat \<Rightarrow> int) \<Rightarrow> int" where
  "spec_plane_byte bit_of = sum_list (map (\<lambda>x. bit_of x * 2 ^ (7 - x)) [0..<8])"

definition spec_tile :: "grid \<Rightarrow> int list" where
  "spec_tile g = concat (map (\<lambda>r.
      [spec_plane_byte (\<lambda>x. fst (spec_toBits (g ! r ! x))),
       spec_plane_byte (\<lambda>x. snd (spec_toBits (g ! r ! x)))]) [0..<8])"

fun spec_swap :: "int list \<Rightarrow> int list" where
  "spec_swap (a # b # rest) = b # a # spec_swap rest"
| "spec_swap rest = rest"

definition spec_hex_token :: "int \<Rightarrow> string" where
  "spec_hex_token b = [''0123456789ABCDEF'' ! nat (b div 16), ''0123456789ABCDEF'' ! nat (b mod 16)]"

fun spec_spaced :: "string list \<Rightarrow> string" where
  "spec_spaced [] = []"
| "spec_spaced [t] = t"
| "spec_spaced (t # ts) = t @ CHR '' '' # spec_spaced ts"

definition spec_encode :: "grid \<Rightarrow> string" where
  "spec_encode g = spec_spaced (map spec_hex_token (spec_swap (spec_tile g)))"







text \<open>Two grids used as concrete instances.\<close>

definition blank_grid :: grid where
  "blank_grid =
     [[0, 0, 0, 0, 0, 0, 0, 0], [0, 0, 0, 0, 0, 0, 0, 0], [0, 0, 0, 0, 0, 0, 0, 0],
      [0, 0, 0, 0, 0, 0, 0, 0], [0, 0, 0, 0, 0, 0, 0, 0], [0, 0, 0, 0, 0, 0, 0, 0],
      [0, 0, 0, 0, 0, 0, 0, 0], [0, 0, 0, 0, 0, 0, 0, 0]]"

definition example_grid :: grid where
  "example_grid =
     [[0, 1, 2, 3, 0, 1, 2, 3], [3, 3, 3, 3, 3, 3, 3, 3], [0, 3, 0, 3, 0, 3, 0, 3],
      [1, 1, 1, 1, 2, 2, 2, 2], [0, 0, 0, 0, 0, 0, 0, 0], [2, 2, 2, 2, 2, 2, 2, 2],
      [3, 2, 1, 0, 3, 2, 1, 0], [1, 0, 0, 0, 0, 0, 0, 1]]"

section \<open>The colour table\<close>

lemma GB_MAPPING_simps:
  "GB_MAPPING 0 = Some (1, 1)" "GB_MAPPING 1 = Some (1, 0)"
  "GB_MAPPING 2 = Some (0, 0)" "GB_MAPPING 3 = Some (0, 1)"
  by (simp_all add: GB_MAPPING_def GB_MAPPING_items_def)

lemma GB_MAPPING_Some:
  "GB_MAPPING c = Some p \<longleftrightarrow>
     (c = 0 \<and> p = (1, 1)) \<or> (c = 1 \<and> p = (1, 0)) \<or> (c = 2 \<and> p = (0, 0)) \<or> (c = 3 \<and> p = (0, 1))"
  by (auto simp add: GB_MAPPING_def GB_MAPPING_items_def)

lemma GB_REVERSE_simps:
  "GB_REVERSE (1, 1) = Some 0" "GB_REVERSE (1, 0) = Some 1"
  "GB_REVERSE (0, 0) = Some 2" "GB_REVERSE (0, 1) = Some 3"
  by (simp_all add: GB_REVERSE_def GB_MAPPING_items_def)

lemma GB_REVERSE_Some:
  "GB_REVERSE p = Some c \<longleftrightarrow>
     (c = 0 \<and> p = (1, 1)) \<or> (c = 1 \<and> p = (1, 0)) \<or> (c = 2 \<and> p = (0, 0)) \<or> (c = 3 \<and> p = (0, 1))"
  by (auto simp add: GB_REVERSE_def GB_MAPPING_items_def)

text \<open>
  Claim C7. The colour table is a bijection between the four indices and the four bit
  pairs: it is exactly 0 to (1,1), 1 to (1,0), 2 to (0,0), 3 to (0,1) and has no other
  entry; the reverse table sends the pair of every index back to that index; every one of
  the four bit pairs is the image of exactly one index; and the reverse table is defined on
  exactly the four bit pairs.
\<close>

theorem mapping_bijection:
  "GB_MAPPING 0 = Some (1, 1) \<and> GB_MAPPING 1 = Some (1, 0) \<and>
   GB_MAPPING 2 = Some (0, 0) \<and> GB_MAPPING 3 = Some (0, 1) \<and>
   dom GB_MAPPING = {0, 1, 2, 3} \<and>
   (\<forall>i \<in> {0, 1, 2, 3}. \<exists>p. GB_MAPPING i = Some p \<and> GB_REVERSE p = Some i) \<and>
   (\<forall>p \<in> {(0, 0), (0, 1), (1, 0), (1, 1)}. \<exists>!i. GB_MAPPING i = Some p) \<and>
   dom GB_REVERSE = {(0, 0), (0, 1), (1, 0), (1, 1)}"
  apply (intro conjI)
         apply (simp_all add: GB_MAPPING_simps)
     apply (auto simp add: GB_MAPPING_Some GB_REVERSE_Some dom_def)
  done

theorem mapping_bijection_witness:
  "(2::int) \<in> {0, 1, 2, 3} \<and> (\<exists>p. GB_MAPPING 2 = Some p \<and> GB_REVERSE p = Some 2) \<and>
   ((0::int, 1::int) \<in> {(0, 0), (0, 1), (1, 0), (1, 1)}) \<and> (\<exists>!i. GB_MAPPING i = Some (0, 1))"
proof -
  have a: "(2::int) \<in> {0, 1, 2, 3}" and b: "(0::int, 1::int) \<in> {(0, 0), (0, 1), (1, 0), (1, 1)}"
    by simp_all
  from mapping_bijection a have "\<exists>p. GB_MAPPING 2 = Some p \<and> GB_REVERSE p = Some 2"
    by blast
  moreover from mapping_bijection b have "\<exists>!i. GB_MAPPING i = Some (0, 1)"
    by blast
  ultimately show ?thesis using a b by blast
qed

section \<open>The swap of byte pairs\<close>

lemma py_range_0_16_2: "py_range 0 16 2 = [0, 2, 4, 6, 8, 10, 12, 14]"
  by (simp add: py_range_def upt_rec)

lemma upt8: "[0..<8] = [0, 1, 2, 3, 4, 5, 6, 7]"
  by (simp add: upt_rec)

lemma list16:
  assumes "length (b :: 'a list) = 16"
  obtains b0 b1 b2 b3 b4 b5 b6 b7 b8 b9 b10 b11 b12 b13 b14 b15
  where "b = [b0, b1, b2, b3, b4, b5, b6, b7, b8, b9, b10, b11, b12, b13, b14, b15]"
  using assms by (auto simp add: length_Suc_conv eval_nat_numeral)

lemma to_little_endian_pairs_16:
  assumes "length b = 16"
  shows "to_little_endian_pairs b = Inr (swap_pairs b)"
proof -
  from assms obtain b0 b1 b2 b3 b4 b5 b6 b7 b8 b9 b10 b11 b12 b13 b14 b15
    where "b = [b0, b1, b2, b3, b4, b5, b6, b7, b8, b9, b10, b11, b12, b13, b14, b15]"
    by (rule list16)
  then show ?thesis
    by (simp add: to_little_endian_pairs_def py_range_0_16_2 getitem_def swap_pairs_def upt8)
qed

lemma swap_pairs_swap_pairs: "length b = 16 \<Longrightarrow> swap_pairs (swap_pairs b) = b"
  by (erule list16) (simp add: swap_pairs_def upt8)

lemma length_swap_pairs: "length (swap_pairs b) = 16"
  by (simp add: swap_pairs_def upt8)

text \<open>
  Claim C6. The swap of byte pairs is an involution: on every list of exactly sixteen
  values \<^const>\<open>to_little_endian_pairs\<close> returns a list, and applied to that list it
  returns the original one.
\<close>

theorem swap_involution:
  assumes "length b = 16"
  shows "\<exists>b'. to_little_endian_pairs b = Inr b' \<and> to_little_endian_pairs b' = Inr b"
proof (intro exI conjI)
  from assms show "to_little_endian_pairs b = Inr (swap_pairs b)"
    by (rule to_little_endian_pairs_16)
  have "to_little_endian_pairs (swap_pairs b) = Inr (swap_pairs (swap_pairs b))"
    using length_swap_pairs by (rule to_little_endian_pairs_16)
  also from assms have "swap_pairs (swap_pairs b) = b"
    by (rule swap_pairs_swap_pairs)
  finally show "to_little_endian_pairs (swap_pairs b) = Inr b" .
qed

theorem swap_involution_witness:
  "length [0, 1, 2, 3, 4, 5, 6, 7, 8, 9, 10, 11, 12, 13, 14, 15 :: int] = 16 \<and>
   (\<exists>b'. to_little_endian_pairs [0, 1, 2, 3, 4, 5, 6, 7, 8, 9, 10, 11, 12, 13, 14, 15] = Inr b' \<and>
         to_little_endian_pairs b' = Inr [0, 1, 2, 3, 4, 5, 6, 7, 8, 9, 10, 11, 12, 13, 14, 15])"
  using swap_involution [of "[0, 1, 2, 3, 4, 5, 6, 7, 8, 9, 10, 11, 12, 13, 14, 15]"] by simp

section \<open>The encoder in closed form\<close>

lemma plane_simps:
  "plane sel row [] a = a"
  "plane sel row (x # xs) a = plane sel row xs (a OR push_bit (7 - x) (sel (row ! x)))"
  by (simp_all add: plane_def)

lemma row_loop_plane:
  assumes "y < length g" "\<forall>x \<in> set xs. x < length (g ! y) \<and> g ! y ! x \<in> {0, 1, 2, 3}"
  shows "row_loop g y xs (low, high) = Inr (plane lo_of (g ! y) xs low, plane hi_of (g ! y) xs high)"
  using assms
proof (induction xs arbitrary: low high)
  case Nil
  then show ?case by (simp add: plane_simps)
next
  case (Cons x xs)
  from Cons.prems have c: "g ! y ! x \<in> {0, 1, 2, 3}" and x: "x < length (g ! y)" by simp_all
  from c obtain lo hi where m: "GB_MAPPING (g ! y ! x) = Some (lo, hi)"
    by (auto simp add: GB_MAPPING_simps)
  from Cons.prems have "row_loop g y xs (low OR push_bit (7 - x) lo, high OR push_bit (7 - x) hi)
    = Inr (plane lo_of (g ! y) xs (low OR push_bit (7 - x) lo), plane hi_of (g ! y) xs (high OR push_bit (7 - x) hi))"
    by (intro Cons.IH) simp_all
  moreover from m have "lo_of (g ! y ! x) = lo" "hi_of (g ! y ! x) = hi"
    by (simp_all add: lo_of_def hi_of_def)
  ultimately show ?case using m x Cons.prems(1)
    by (simp add: getitem_def plane_simps)
qed

lemma valid_grid_nth:
  "valid_grid g \<Longrightarrow> y < 8 \<Longrightarrow> length (g ! y) = 8 \<and> (\<forall>x < 8. g ! y ! x \<in> {0, 1, 2, 3})"
  by (auto simp add: valid_grid_def list_all_length)

lemma tile_loop_valid:
  assumes "valid_grid g" "\<forall>y \<in> set ys. y < 8"
  shows "tile_loop g ys tile =
    Inr (tile @ concat (map (\<lambda>y. [plane lo_of (g ! y) [0..<8] 0, plane hi_of (g ! y) [0..<8] 0]) ys))"
  using assms(2)
proof (induction ys arbitrary: tile)
  case Nil
  then show ?case by simp
next
  case (Cons y ys)
  then have y: "y < 8" by simp
  with assms(1) have "y < length g" by (simp add: valid_grid_def)
  moreover from valid_grid_nth [OF assms(1) y]
  have "\<forall>x \<in> set [0..<8]. x < length (g ! y) \<and> g ! y ! x \<in> {0, 1, 2, 3}" by simp
  ultimately have "row_loop g y [0..<8] (0, 0) = Inr (plane lo_of (g ! y) [0..<8] 0, plane hi_of (g ! y) [0..<8] 0)"
    by (rule row_loop_plane)
  with Cons show ?case by (simp add: GRID_def)
qed

lemma grid_to_tile_bytes_valid: "valid_grid g \<Longrightarrow> grid_to_tile_bytes g = Inr (tile_of g)"
  by (simp add: grid_to_tile_bytes_def tile_loop_valid GRID_def tile_of_def)

lemma length_tile_of: "length (tile_of g) = 16"
  by (simp add: tile_of_def upt8)

lemma hex_display_valid:
  "valid_grid g \<Longrightarrow> hex_display g = Inr (join '' '' (map format_02X (swap_pairs (tile_of g))))"
  by (simp add: hex_display_def grid_to_tile_bytes_valid to_little_endian_pairs_16 length_tile_of)

section \<open>The decoder in closed form\<close>

lemma shift_and_1: "drop_bit k (a::int) AND 1 = of_bool (bit a k)"
  by (simp add: and_one_eq bit_iff_odd_drop_bit mod_2_eq_odd)

lemma GB_REVERSE_bits:
  "GB_REVERSE (drop_bit k low AND 1, drop_bit k high AND 1) =
     Some (if bit low k then (if bit high k then 0 else 1) else (if bit high k then 3 else 2))"
  by (simp add: shift_and_1 GB_REVERSE_simps)

lemma GB_REVERSE_decoded_cell:
  "GB_REVERSE (drop_bit (7 - x) low AND 1, drop_bit (7 - x) high AND 1) = Some (decoded_cell low high x)"
  by (simp add: decoded_cell_def GB_REVERSE_bits)

lemma decode_cols_closed:
  assumes "row < length g" "\<forall>x \<in> set xs. x < length (g ! row)"
  shows "decode_cols low high row xs g =
    (None, g[row := fold (\<lambda>x r. r[x := decoded_cell low high x]) xs (g ! row)])"
  using assms
proof (induction xs arbitrary: g)
  case Nil
  then show ?case by simp
next
  case (Cons x xs)
  let ?g = "g[row := (g ! row)[x := decoded_cell low high x]]"
  from Cons.prems have s: "set_cell g row x (decoded_cell low high x) = Inr ?g"
    by (simp add: set_cell_def)
  from Cons.prems have "decode_cols low high row xs ?g =
    (None, ?g[row := fold (\<lambda>x r. r[x := decoded_cell low high x]) xs (?g ! row)])"
    by (intro Cons.IH) simp_all
  with s Cons.prems(1) show ?case
    by (simp add: GB_REVERSE_decoded_cell)
qed

lemma list8:
  assumes "length (r :: 'a list) = 8"
  obtains r0 r1 r2 r3 r4 r5 r6 r7 where "r = [r0, r1, r2, r3, r4, r5, r6, r7]"
  using assms by (auto simp add: length_Suc_conv eval_nat_numeral)

lemma fold_update8:
  "length r = 8 \<Longrightarrow> fold (\<lambda>x r. r[x := f x]) [0..<8] r = map f [0..<8]"
  by (erule list8) (simp add: upt8)

lemma decode_cols_8:
  assumes "row < length g" "length (g ! row) = 8"
  shows "decode_cols low high row [0..<8] g = (None, g[row := map (decoded_cell low high) [0..<8]])"
  using assms by (simp add: decode_cols_closed fold_update8)

lemma grid_8x8_update: "grid_8x8 g \<Longrightarrow> length r = 8 \<Longrightarrow> grid_8x8 (g[i := r])"
  using set_update_subset_insert [of g i r] by (auto simp add: grid_8x8_def list_all_iff)

lemma length_decoded_row: "length (decoded_row tile row) = 8"
  by (simp add: decoded_row_def)

lemma decode_rows_closed:
  assumes "length tile = 16" "grid_8x8 g" "\<forall>r \<in> set rows. r < 8"
  shows "decode_rows tile rows g = (None, fold (\<lambda>r g. g[r := decoded_row tile r]) rows g)"
  using assms(2,3)
proof (induction rows arbitrary: g)
  case Nil
  then show ?case by simp
next
  case (Cons r rows)
  then have r: "r < 8" by simp
  with Cons.prems(1) have g: "r < length g" "length (g ! r) = 8"
    by (simp_all add: grid_8x8_def list_all_length)
  from r assms(1) have t: "2 * r < length tile" "2 * r + 1 < length tile" by simp_all
  have "grid_8x8 (g[r := decoded_row tile r])"
    using Cons.prems(1) by (rule grid_8x8_update) (rule length_decoded_row)
  then have "decode_rows tile rows (g[r := decoded_row tile r]) =
    (None, fold (\<lambda>r g. g[r := decoded_row tile r]) rows (g[r := decoded_row tile r]))"
    using Cons.prems(2) by (intro Cons.IH) simp_all
  with g t show ?case
    by (simp add: getitem_def decode_cols_8 decoded_row_def)
qed

lemma decode_rows_8:
  assumes "length tile = 16" "grid_8x8 g"
  shows "decode_rows tile [0..<8] g = (None, decoded_grid tile)"
proof -
  from assms(2) have "length g = 8" by (simp add: grid_8x8_def)
  then have "fold (\<lambda>r g. g[r := decoded_row tile r]) [0..<8] g = map (decoded_row tile) [0..<8]"
    by (rule fold_update8)
  with assms show ?thesis
    by (simp add: decode_rows_closed decoded_grid_def)
qed

lemma unswap_loop_16:
  assumes "length b = 16"
  shows "unswap_loop b (py_range 0 16 2) [] = Inr (swap_pairs b)"
proof -
  from assms obtain b0 b1 b2 b3 b4 b5 b6 b7 b8 b9 b10 b11 b12 b13 b14 b15
    where "b = [b0, b1, b2, b3, b4, b5, b6, b7, b8, b9, b10, b11, b12, b13, b14, b15]"
    by (rule list16)
  then show ?thesis
    by (simp add: py_range_0_16_2 getitem_def swap_pairs_def upt8)
qed

lemma decode_bytes_16:
  assumes "length bytes_le = 16" "grid_8x8 (grid_data self)"
  shows "decode_bytes bytes_le self = (Decoded, self\<lparr>grid_data := decoded_grid (swap_pairs bytes_le)\<rparr>)"
  using assms by (simp add: decode_bytes_def unswap_loop_16 decode_rows_8 length_swap_pairs)

section \<open>Bit planes\<close>

lemma bit_01: "l \<in> {0, 1::int} \<Longrightarrow> bit l m \<longleftrightarrow> (l = 1 \<and> m = 0)"
  by (auto simp add: bit_1_iff)

lemma bit_plane:
  "(\<forall>x \<in> set xs. sel (row ! x) \<in> {0, 1}) \<Longrightarrow>
   bit (plane sel row xs a) n \<longleftrightarrow> bit a n \<or> (\<exists>x \<in> set xs. 7 - x = n \<and> sel (row ! x) = 1)"
proof (induction xs arbitrary: a)
  case Nil
  then show ?case by (simp add: plane_simps)
next
  case (Cons x xs)
  then show ?case
    by (auto simp add: plane_simps bit_or_iff bit_push_bit_iff bit_01)
qed

lemma bit_plane8:
  assumes "\<forall>c. sel c \<in> {0, 1}"
  shows "bit (plane sel row [0..<8] 0) n \<longleftrightarrow> n < 8 \<and> sel (row ! (7 - n)) = 1"
proof -
  from assms have "bit (plane sel row [0..<8] 0) n \<longleftrightarrow>
      bit (0::int) n \<or> (\<exists>x \<in> set [0..<8]. 7 - x = n \<and> sel (row ! x) = 1)"
    by (intro bit_plane) simp
  also have "\<dots> \<longleftrightarrow> n < 8 \<and> sel (row ! (7 - n)) = 1"
  proof -
    have "(\<exists>x \<in> set [0..<8]. 7 - x = n \<and> sel (row ! x) = 1) \<longleftrightarrow> n < 8 \<and> sel (row ! (7 - n)) = 1"
    proof
      assume "\<exists>x \<in> set [0..<8]. 7 - x = n \<and> sel (row ! x) = 1"
      then obtain x where "x < 8" "7 - x = n" "sel (row ! x) = 1" by auto
      moreover from this have "7 - n = x" "n < 8" by arith+
      ultimately show "n < 8 \<and> sel (row ! (7 - n)) = 1" by simp
    next
      assume a: "n < 8 \<and> sel (row ! (7 - n)) = 1"
      then have "7 - n \<in> set [0..<8]" "7 - (7 - n) = n" by auto
      with a show "\<exists>x \<in> set [0..<8]. 7 - x = n \<and> sel (row ! x) = 1" by blast
    qed
    then show ?thesis by simp
  qed
  finally show ?thesis .
qed

lemma lo_of_01: "lo_of c \<in> {0, 1}"
  by (auto simp add: lo_of_def GB_MAPPING_Some split: option.splits)

lemma hi_of_01: "hi_of c \<in> {0, 1}"
  by (auto simp add: hi_of_def GB_MAPPING_Some split: option.splits)

lemma plane8_byte:
  assumes "\<forall>c. sel c \<in> {0, 1}"
  shows "0 \<le> plane sel row [0..<8] 0 \<and> plane sel row [0..<8] 0 < 256"
proof -
  have "take_bit 8 (plane sel row [0..<8] 0) = plane sel row [0..<8] 0"
    by (rule bit_eqI) (auto simp add: bit_take_bit_iff bit_plane8 [OF assms])
  then have "plane sel row [0..<8] 0 = plane sel row [0..<8] 0 mod 256"
    by (simp add: take_bit_eq_mod)
  then show ?thesis
    by (metis pos_mod_bound pos_mod_sign zero_less_numeral)
qed

lemma lo_of_simps: "lo_of 0 = 1" "lo_of 1 = 1" "lo_of 2 = 0" "lo_of 3 = 0"
  by (simp_all add: lo_of_def GB_MAPPING_simps)

lemma hi_of_simps: "hi_of 0 = 1" "hi_of 1 = 0" "hi_of 2 = 0" "hi_of 3 = 1"
  by (simp_all add: hi_of_def GB_MAPPING_simps)

lemma decoded_cell_plane:
  assumes "x < 8" "row ! x \<in> {0, 1, 2, 3}"
  shows "decoded_cell (plane lo_of row [0..<8] 0) (plane hi_of row [0..<8] 0) x = row ! x"
proof -
  from assms(1) have "7 - x < 8" "7 - (7 - x) = x" by arith+
  then have "bit (plane lo_of row [0..<8] 0) (7 - x) \<longleftrightarrow> lo_of (row ! x) = 1"
    and "bit (plane hi_of row [0..<8] 0) (7 - x) \<longleftrightarrow> hi_of (row ! x) = 1"
    using lo_of_01 hi_of_01 by (simp_all add: bit_plane8)
  with assms(2) show ?thesis
    by (auto simp add: decoded_cell_def GB_REVERSE_bits lo_of_simps hi_of_simps)
qed






section \<open>Tile bytes of a decoded grid, decoded grid of tile bytes\<close>

lemma less8_cases: "r < (8::nat) \<Longrightarrow> r = 0 \<or> r = 1 \<or> r = 2 \<or> r = 3 \<or> r = 4 \<or> r = 5 \<or> r = 6 \<or> r = 7"
  by arith

lemma tile_of_nth:
  assumes "r < 8"
  shows "tile_of g ! (2 * r) = plane lo_of (g ! r) [0..<8] 0"
    and "tile_of g ! (2 * r + 1) = plane hi_of (g ! r) [0..<8] 0"
    and "tile_of g ! Suc (2 * r) = plane hi_of (g ! r) [0..<8] 0"
  using less8_cases [OF assms] by (auto simp add: tile_of_def upt8)

lemma decoded_row_tile_of:
  assumes "valid_grid g" "r < 8"
  shows "decoded_row (tile_of g) r = g ! r"
proof (rule nth_equalityI)
  from valid_grid_nth [OF assms] show "length (decoded_row (tile_of g) r) = length (g ! r)"
    by (simp add: decoded_row_def)
next
  fix x assume "x < length (decoded_row (tile_of g) r)"
  then have x: "x < 8" by (simp add: decoded_row_def)
  with valid_grid_nth [OF assms] have "g ! r ! x \<in> {0, 1, 2, 3}" by blast
  with x show "decoded_row (tile_of g) r ! x = g ! r ! x"
    by (simp add: decoded_row_def tile_of_nth [OF assms(2)] decoded_cell_plane del: upt_Suc)
qed

lemma decoded_grid_tile_of:
  assumes "valid_grid g"
  shows "decoded_grid (tile_of g) = g"
proof (rule nth_equalityI)
  from assms show "length (decoded_grid (tile_of g)) = length g"
    by (simp add: decoded_grid_def valid_grid_def)
next
  fix r assume "r < length (decoded_grid (tile_of g))"
  then have "r < 8" by (simp add: decoded_grid_def)
  then show "decoded_grid (tile_of g) ! r = g ! r"
    by (simp add: decoded_grid_def decoded_row_tile_of [OF assms] del: upt_Suc)
qed


lemma grid_8x8_decoded_grid: "grid_8x8 (decoded_grid tile)"
  by (simp add: grid_8x8_def decoded_grid_def decoded_row_def list_all_iff del: upt_Suc)

lemma valid_grid_8x8: "valid_grid g \<Longrightarrow> grid_8x8 g"
  by (simp add: valid_grid_def grid_8x8_def list_all_iff)




section \<open>Tokens: splitting, joining and parsing\<close>

lemma split_from_append:
  "\<forall>c \<in> set t. \<not> is_space c \<Longrightarrow> split_from cur (t @ rest) = split_from (cur @ t) rest"
  by (induction t arbitrary: cur) simp_all

lemma split_from_spaces:
  "\<forall>c \<in> set ws. is_space c \<Longrightarrow> split_from cur ws = (if cur = [] then [] else [cur])"
  by (induction ws arbitrary: cur) simp_all

lemma split_from_trailing:
  "\<forall>c \<in> set ws. is_space c \<Longrightarrow> split_from cur (s @ ws) = split_from cur s"
  by (induction s arbitrary: cur) (simp_all add: split_from_spaces)

lemma split_from_dropWhile: "split_from [] (dropWhile is_space s) = split_from [] s"
  by (induction s) simp_all

lemma split_strip: "split (strip s) = split s"
proof -
  define s1 where "s1 = dropWhile is_space s"
  define ws where "ws = rev (takeWhile is_space (rev s1))"
  have "rev (takeWhile is_space (rev s1) @ dropWhile is_space (rev s1)) = s1"
    by (simp only: takeWhile_dropWhile_id rev_rev_ident)
  then have s1: "rev (dropWhile is_space (rev s1)) @ ws = s1"
    by (simp only: ws_def rev_append)
  have ws: "\<forall>c \<in> set ws. is_space c"
    by (auto simp add: ws_def dest: set_takeWhileD)
  have "split (strip s) = split_from [] (rev (dropWhile is_space (rev s1)))"
    by (simp add: split_def strip_def s1_def)
  also have "\<dots> = split_from [] (rev (dropWhile is_space (rev s1)) @ ws)"
    using ws by (simp add: split_from_trailing)
  also have "\<dots> = split_from [] s1" by (simp only: s1)
  also have "\<dots> = split s" by (simp add: s1_def split_def split_from_dropWhile)
  finally show ?thesis .
qed

lemma is_space_space: "is_space (CHR '' '')"
  by (simp add: is_space_def)

lemma split_join:
  "\<forall>t \<in> set ts. t \<noteq> [] \<and> (\<forall>c \<in> set t. \<not> is_space c) \<Longrightarrow> split_from [] (join '' '' ts) = ts"
proof (induction "'' ''" ts rule: join.induct)
  case 1
  then show ?case by simp
next
  case (2 s)
  then have "split_from [] (s @ []) = split_from ([] @ s) []"
    by (intro split_from_append) simp
  with 2 show ?case by simp
next
  case (3 s t ts)
  then have "split_from [] (s @ ('' '' @ join '' '' (t # ts))) = split_from ([] @ s) ('' '' @ join '' '' (t # ts))"
    by (intro split_from_append) simp
  with 3 show ?case by (simp add: is_space_space)
qed


lemma parse_all_length: "parse_all ps = Some ns \<Longrightarrow> length ns = length ps"
  by (induction ps arbitrary: ns) (auto split: option.splits)


lemma parse_all_format: "\<forall>b \<in> set bs. int16 (fmt b) = Some b \<Longrightarrow> parse_all (map fmt bs) = Some bs"
  by (induction bs) simp_all

lemma digit_value_Some: "digit_value c = Some d \<longleftrightarrow> (c, d) \<in> set hex_values"
proof -
  have "distinct (map fst hex_values)" by (simp add: hex_values_def)
  then show ?thesis by (simp add: digit_value_def)
qed

lemma less16_cases:
  "d < (16::nat) \<Longrightarrow> d = 0 \<or> d = 1 \<or> d = 2 \<or> d = 3 \<or> d = 4 \<or> d = 5 \<or> d = 6 \<or> d = 7 \<or>
     d = 8 \<or> d = 9 \<or> d = 10 \<or> d = 11 \<or> d = 12 \<or> d = 13 \<or> d = 14 \<or> d = 15"
  by arith

lemma digit_value_hex_digit: "d < 16 \<Longrightarrow> digit_value (hex_digit d) = Some d"
  by (drule less16_cases) (elim disjE; simp add: hex_digit_def digit_value_def hex_values_def)

lemma digit_value_plain:
  assumes "digit_value c = Some d"
  shows "c \<noteq> CHR ''_''" "c \<noteq> CHR ''+''" "c \<noteq> CHR ''-''" "c \<noteq> CHR ''x''" "c \<noteq> CHR ''X''"
    "\<not> is_space c" "d < 16"
  using assms by (auto simp add: digit_value_Some hex_values_def is_space_def)

lemma int16_two_digits:
  assumes "digit_value c1 = Some d1" "digit_value c2 = Some d2"
  shows "int16 [c1, c2] = Some (16 * int d1 + int d2)"
  using assms digit_value_plain [OF assms(1)] digit_value_plain [OF assms(2)]
  by (simp add: int16_def skip_sign_def skip_prefix_def)

lemma format_02X_byte:
  assumes "0 \<le> b" "b < 256"
  shows "format_02X b = [hex_digit (nat b div 16), hex_digit (nat b mod 16)]"
proof (cases "nat b < 16")
  case True
  then have "hex_of_nat (nat b) = [hex_digit (nat b)]" by (simp add: hex_of_nat.simps)
  with True assms show ?thesis by (simp add: format_02X_def zero_pad_def hex_digit_def)
next
  case False
  moreover from assms have "nat b div 16 < 16" by simp
  ultimately have "hex_of_nat (nat b) = [hex_digit (nat b div 16), hex_digit (nat b mod 16)]"
    by (simp add: hex_of_nat.simps [of "nat b"] hex_of_nat.simps [of "nat b div 16"])
  with assms show ?thesis by (simp add: format_02X_def zero_pad_def)
qed

lemma int16_format_02X:
  assumes "0 \<le> b" "b < 256"
  shows "int16 (format_02X b) = Some b"
proof -
  from assms have d: "nat b div 16 < 16" "nat b mod 16 < 16" by simp_all
  have "int16 (format_02X b) = Some (16 * int (nat b div 16) + int (nat b mod 16))"
    by (simp only: format_02X_byte [OF assms] int16_two_digits [OF digit_value_hex_digit [OF d(1)] digit_value_hex_digit [OF d(2)]])
  also from assms have "16 * int (nat b div 16) + int (nat b mod 16) = b"
    by (simp add: zdiv_int zmod_int)
  finally show ?thesis .
qed

lemma format_02X_token:
  assumes "0 \<le> b" "b < 256"
  shows "format_02X b \<noteq> [] \<and> (\<forall>c \<in> set (format_02X b). \<not> is_space c)"
proof -
  from assms have d: "nat b div 16 < 16" "nat b mod 16 < 16" by simp_all
  from digit_value_plain(6) [OF digit_value_hex_digit [OF d(1)]]
    digit_value_plain(6) [OF digit_value_hex_digit [OF d(2)]]
  show ?thesis by (simp add: format_02X_byte [OF assms])
qed

section \<open>The decoder on parsed tokens\<close>

lemma hex_changed_parsed:
  assumes "length (split (hex_entry self)) = 16" "parse_all (split (hex_entry self)) = Some bs"
    "grid_8x8 (grid_data self)"
  shows "hex_changed self = (Decoded, self\<lparr>grid_data := decoded_grid (swap_pairs bs)\<rparr>)"
proof -
  from assms(1,2) have "length bs = 16" by (simp add: parse_all_length)
  with assms show ?thesis
    by (simp add: hex_changed_def split_strip decode_bytes_16)
qed

lemma swap_pairs_tile_of_byte:
  assumes "b \<in> set (swap_pairs (tile_of g))"
  shows "0 \<le> b \<and> b < 256"
proof -
  from assms obtain r where r: "r < 8" and "b = tile_of g ! (2 * r + 1) \<or> b = tile_of g ! (2 * r)"
    by (auto simp add: swap_pairs_def simp del: upt_Suc)
  then have "b = plane hi_of (g ! r) [0..<8] 0 \<or> b = plane lo_of (g ! r) [0..<8] 0"
    by (simp only: tile_of_nth [OF r])
  then show ?thesis using plane8_byte lo_of_01 hi_of_01 by blast
qed

lemma encode_tokens:
  assumes "\<forall>b \<in> set bs. 0 \<le> b \<and> b < 256"
  shows "split (join '' '' (map format_02X bs)) = map format_02X bs"
    and "parse_all (map format_02X bs) = Some bs"
proof -
  from assms have "\<forall>t \<in> set (map format_02X bs). t \<noteq> [] \<and> (\<forall>c \<in> set t. \<not> is_space c)"
    using format_02X_token by auto
  then show "split (join '' '' (map format_02X bs)) = map format_02X bs"
    unfolding split_def by (rule split_join)
  from assms show "parse_all (map format_02X bs) = Some bs"
    by (intro parse_all_format) (simp add: int16_format_02X)
qed

section \<open>Round trip from a grid\<close>

text \<open>
  Claim C1. For every 8x8 grid whose cells are all among 0, 1, 2, 3, the encoder returns a
  hex text, and \<^const>\<open>hex_changed\<close> run on that text (whatever 8x8 grid the editor held
  before) ends at the redraw with the editor's grid equal to the encoded grid.
\<close>

theorem decode_encode_roundtrip:
  assumes "valid_grid g" "grid_8x8 g0"
  shows "\<exists>h. hex_display g = Inr h \<and>
    hex_changed \<lparr>grid_data = g0, hex_entry = h\<rparr> = (Decoded, \<lparr>grid_data = g, hex_entry = h\<rparr>)"
proof -
  define bs where "bs = swap_pairs (tile_of g)"
  define h where "h = join '' '' (map format_02X bs)"
  have bytes: "\<forall>b \<in> set bs. 0 \<le> b \<and> b < 256"
    unfolding bs_def using swap_pairs_tile_of_byte by blast
  have len: "length bs = 16"
    by (simp add: bs_def length_swap_pairs)
  have enc: "hex_display g = Inr h"
    using assms(1) by (simp add: hex_display_valid h_def bs_def)
  have "hex_changed \<lparr>grid_data = g0, hex_entry = h\<rparr> =
      (Decoded, \<lparr>grid_data = g0, hex_entry = h\<rparr>\<lparr>grid_data := decoded_grid (swap_pairs bs)\<rparr>)"
    using assms(2) len by (intro hex_changed_parsed) (simp_all add: h_def encode_tokens [OF bytes])
  moreover have "decoded_grid (swap_pairs bs) = g"
    using assms(1) by (simp add: bs_def swap_pairs_swap_pairs length_tile_of decoded_grid_tile_of)
  ultimately show ?thesis using enc by simp
qed

theorem decode_encode_roundtrip_witness:
  "valid_grid example_grid \<and> grid_8x8 blank_grid \<and>
   hex_display example_grid = Inr ''99 CC FF 00 FF AA 00 F0 FF FF 00 00 99 33 7E FF'' \<and>
   hex_changed \<lparr>grid_data = blank_grid, hex_entry = ''99 CC FF 00 FF AA 00 F0 FF FF 00 00 99 33 7E FF''\<rparr> =
     (Decoded, \<lparr>grid_data = example_grid, hex_entry = ''99 CC FF 00 FF AA 00 F0 FF FF 00 00 99 33 7E FF''\<rparr>)"
proof -
  have a: "valid_grid example_grid" by code_simp
  have b: "grid_8x8 blank_grid" by code_simp
  have c: "hex_display example_grid = Inr ''99 CC FF 00 FF AA 00 F0 FF FF 00 00 99 33 7E FF''"
    by code_simp
  from decode_encode_roundtrip [OF a b] c
  have "hex_changed \<lparr>grid_data = blank_grid, hex_entry = ''99 CC FF 00 FF AA 00 F0 FF FF 00 00 99 33 7E FF''\<rparr> =
     (Decoded, \<lparr>grid_data = example_grid, hex_entry = ''99 CC FF 00 FF AA 00 F0 FF FF 00 00 99 33 7E FF''\<rparr>)"
    by auto
  with a b c show ?thesis by simp
qed

section \<open>Failures of the decoder\<close>

lemma decode_bytes_outcome:
  "fst (decode_bytes bs self) \<noteq> MalformedLength \<and> fst (decode_bytes bs self) \<noteq> InvalidHexByte"
  by (simp add: decode_bytes_def split: sum.splits prod.splits option.splits)

lemma hex_changed_MalformedLength:
  "fst (hex_changed self) = MalformedLength \<longleftrightarrow> length (split (hex_entry self)) \<noteq> 16"
  using decode_bytes_outcome
  by (simp add: hex_changed_def Let_def split_strip split: option.splits)


lemma hex_changed_cases:
  assumes "grid_8x8 (grid_data self)"
  obtains (length) "hex_changed self = (MalformedLength, self)"
  | (parse) "hex_changed self = (InvalidHexByte, self)"
  | (decoded) bs where "hex_changed self = (Decoded, self\<lparr>grid_data := decoded_grid (swap_pairs bs)\<rparr>)"
proof (cases "length (split (hex_entry self)) = 16")
  case False
  then have "hex_changed self = (MalformedLength, self)"
    by (simp add: hex_changed_def Let_def split_strip)
  then show ?thesis by (rule length)
next
  case True
  show ?thesis
  proof (cases "parse_all (split (hex_entry self))")
    case None
    with True have "hex_changed self = (InvalidHexByte, self)"
      by (simp add: hex_changed_def Let_def split_strip)
    then show ?thesis by (rule parse)
  next
    case (Some bs)
    with True assms show ?thesis by (intro decoded hex_changed_parsed)
  qed
qed

text \<open>
  Claim C4. Decoding is atomic for the editor's grid: whenever \<^const>\<open>hex_changed\<close>, started
  with an 8x8 grid, does not reach the redraw (it showed one of its error dialogs), the
  editor state after the call, grid included, is the state before the call.
\<close>

theorem decode_failure_keeps_grid:
  assumes "grid_8x8 (grid_data self)" "fst (hex_changed self) \<noteq> Decoded"
  shows "snd (hex_changed self) = self"
  using assms(1)
proof (cases rule: hex_changed_cases)
  case length
  then show ?thesis by simp
next
  case parse
  then show ?thesis by simp
next
  case (decoded bs)
  with assms(2) show ?thesis by simp
qed

theorem decode_failure_keeps_grid_witness:
  "grid_8x8 (grid_data \<lparr>grid_data = example_grid, hex_entry = ''ZZ 00 00 00 00 00 00 00 00 00 00 00 00 00 00 00''\<rparr>) \<and>
   fst (hex_changed \<lparr>grid_data = example_grid, hex_entry = ''ZZ 00 00 00 00 00 00 00 00 00 00 00 00 00 00 00''\<rparr>) \<noteq> Decoded \<and>
   snd (hex_changed \<lparr>grid_data = example_grid, hex_entry = ''ZZ 00 00 00 00 00 00 00 00 00 00 00 00 00 00 00''\<rparr>) =
     \<lparr>grid_data = example_grid, hex_entry = ''ZZ 00 00 00 00 00 00 00 00 00 00 00 00 00 00 00''\<rparr>"
proof -
  have a: "grid_8x8 (grid_data \<lparr>grid_data = example_grid, hex_entry = ''ZZ 00 00 00 00 00 00 00 00 00 00 00 00 00 00 00''\<rparr>)"
    by code_simp
  have b: "fst (hex_changed \<lparr>grid_data = example_grid, hex_entry = ''ZZ 00 00 00 00 00 00 00 00 00 00 00 00 00 00 00''\<rparr>) \<noteq> Decoded"
    by code_simp
  from decode_failure_keeps_grid [OF a b] a b show ?thesis by simp
qed

lemma decode_cols_no_KeyError: "fst (decode_cols low high row xs g) \<noteq> Some KeyError"
  by (induction xs arbitrary: g)
    (auto simp add: GB_REVERSE_decoded_cell set_cell_def split: sum.splits if_splits)

lemma decode_cols_no_KeyError_pair: "decode_cols low high row xs g \<noteq> (Some KeyError, g')"
  using decode_cols_no_KeyError [of low high row xs g] by auto

lemma decode_rows_no_KeyError: "fst (decode_rows tile rows g) \<noteq> Some KeyError"
proof (induction rows arbitrary: g)
  case Nil
  then show ?case by simp
next
  case (Cons r rows)
  show ?case
    using Cons.IH
    by (auto simp add: getitem_def decode_cols_no_KeyError_pair split: sum.splits prod.splits option.splits if_splits)
qed

text \<open>
  Claim C9. The failure "Hex does not map to valid GB color codes." is unreachable: the
  pair of single bits masked out of any two integers at any position is in the reverse
  table, with an index among 0, 1, 2, 3; the decoding loop never raises KeyError, whatever
  the tile bytes and the grid; and with an 8x8 grid \<^const>\<open>hex_changed\<close> never ends in
  that failure.
\<close>

theorem invalid_color_bits_unreachable:
  "GB_REVERSE (drop_bit k low AND 1, drop_bit k high AND 1) \<in> {Some 0, Some 1, Some 2, Some 3} \<and>
   fst (decode_rows tile rows g) \<noteq> Some KeyError \<and>
   (grid_8x8 (grid_data self) \<longrightarrow> fst (hex_changed self) \<noteq> InvalidColorBits)"
proof (intro conjI impI)
  show "GB_REVERSE (drop_bit k low AND 1, drop_bit k high AND 1) \<in> {Some 0, Some 1, Some 2, Some 3}"
    by (simp add: GB_REVERSE_bits)
  show "fst (decode_rows tile rows g) \<noteq> Some KeyError"
    by (rule decode_rows_no_KeyError)
  assume "grid_8x8 (grid_data self)"
  then show "fst (hex_changed self) \<noteq> InvalidColorBits"
    by (cases rule: hex_changed_cases) simp_all
qed

theorem invalid_color_bits_unreachable_witness:
  "grid_8x8 (grid_data \<lparr>grid_data = blank_grid, hex_entry = ''99 CC FF 00 FF AA 00 F0 FF FF 00 00 99 33 7E FF''\<rparr>) \<and>
   fst (hex_changed \<lparr>grid_data = blank_grid, hex_entry = ''99 CC FF 00 FF AA 00 F0 FF FF 00 00 99 33 7E FF''\<rparr>) \<noteq> InvalidColorBits"
proof -
  have a: "grid_8x8 (grid_data \<lparr>grid_data = blank_grid, hex_entry = ''99 CC FF 00 FF AA 00 F0 FF FF 00 00 99 33 7E FF''\<rparr>)"
    by code_simp
  with invalid_color_bits_unreachable [of _ _ _ _ _ _ "\<lparr>grid_data = blank_grid, hex_entry = ''99 CC FF 00 FF AA 00 F0 FF FF 00 00 99 33 7E FF''\<rparr>"]
  show ?thesis by blast
qed

lemma hex_changed_wrong_length:
  "length (split (hex_entry self)) \<noteq> 16 \<Longrightarrow> hex_changed self = (MalformedLength, self)"
  by (simp add: hex_changed_def Let_def split_strip)

text \<open>
  Claim C8. \<^const>\<open>hex_changed\<close> ends in the failure "Hex must contain exactly 16 bytes."
  if and only if splitting the text of the entry at whitespace gives a number of tokens
  other than 16. In particular the text of fifteen tokens \<^verbatim>\<open>00\<close> has 15 tokens and ends
  in that failure, the editor unchanged.
\<close>

theorem malformed_length_iff:
  "(fst (hex_changed self) = MalformedLength \<longleftrightarrow> length (split (hex_entry self)) \<noteq> 16) \<and>
   length (split ''00 00 00 00 00 00 00 00 00 00 00 00 00 00 00'') = 15 \<and>
   hex_changed (self\<lparr>hex_entry := ''00 00 00 00 00 00 00 00 00 00 00 00 00 00 00''\<rparr>) =
     (MalformedLength, self\<lparr>hex_entry := ''00 00 00 00 00 00 00 00 00 00 00 00 00 00 00''\<rparr>)"
proof -
  have n: "split ''00 00 00 00 00 00 00 00 00 00 00 00 00 00 00'' =
      [''00'', ''00'', ''00'', ''00'', ''00'', ''00'', ''00'', ''00'', ''00'', ''00'', ''00'', ''00'', ''00'', ''00'', ''00'']"
    by (simp add: split_def is_space_def)
  then have "length (split (hex_entry (self\<lparr>hex_entry := ''00 00 00 00 00 00 00 00 00 00 00 00 00 00 00''\<rparr>))) \<noteq> 16"
    by simp
  then have "hex_changed (self\<lparr>hex_entry := ''00 00 00 00 00 00 00 00 00 00 00 00 00 00 00''\<rparr>) =
     (MalformedLength, self\<lparr>hex_entry := ''00 00 00 00 00 00 00 00 00 00 00 00 00 00 00''\<rparr>)"
    by (rule hex_changed_wrong_length)
  with n show ?thesis by (simp add: hex_changed_MalformedLength)
qed

theorem malformed_length_iff_witness:
  "length (split (hex_entry \<lparr>grid_data = blank_grid, hex_entry = ''FF  0a''\<rparr>)) \<noteq> 16 \<and>
   fst (hex_changed \<lparr>grid_data = blank_grid, hex_entry = ''FF  0a''\<rparr>) = MalformedLength"
proof -
  have a: "length (split (hex_entry \<lparr>grid_data = blank_grid, hex_entry = ''FF  0a''\<rparr>)) \<noteq> 16"
    by code_simp
  with malformed_length_iff [of "\<lparr>grid_data = blank_grid, hex_entry = ''FF  0a''\<rparr>"]
  show ?thesis by blast
qed

section \<open>Only the low eight bits of a parsed value are read\<close>

lemma getitem_map: "getitem (map f xs) i = (case getitem xs i of Inl e \<Rightarrow> Inl e | Inr x \<Rightarrow> Inr (f x))"
  by (simp add: getitem_def)

lemma unswap_loop_map:
  "unswap_loop (map f b) is (map f tile) =
     (case unswap_loop b is tile of Inl e \<Rightarrow> Inl e | Inr t \<Rightarrow> Inr (map f t))"
proof (induction "is" arbitrary: tile)
  case Nil
  then show ?case by simp
next
  case (Cons i "is")
  show ?case
  proof (cases "i + 1 < length b")
    case True
    with Cons.IH [of "tile @ [b ! (i + 1), b ! i]"] show ?thesis
      by (simp add: getitem_def)
  next
    case False
    then show ?thesis by (simp add: getitem_def)
  qed
qed

lemma shift_and_1_mod:
  "drop_bit (7 - x) ((a::int) mod 256) AND 1 = drop_bit (7 - x) a AND 1"
proof -
  have "7 - x < (8::nat)" by arith
  then show ?thesis
    by (simp add: shift_and_1 take_bit_eq_mod [of 8 a, simplified, symmetric] bit_take_bit_iff)
qed

lemma decode_cols_mod:
  "decode_cols (low mod 256) (high mod 256) row xs g = decode_cols low high row xs g"
  by (induction xs arbitrary: g) (simp_all add: shift_and_1_mod Let_def split: option.splits sum.splits)

lemma decode_rows_mod:
  "decode_rows (map (\<lambda>n. n mod 256) tile) rows g = decode_rows tile rows g"
  by (induction rows arbitrary: g)
    (simp_all add: getitem_def decode_cols_mod split: prod.splits option.splits)

lemma decode_bytes_map_mod:
  "decode_bytes (map (\<lambda>n. n mod 256) bs) self = decode_bytes bs self"
proof -
  have "unswap_loop (map (\<lambda>n. n mod 256) bs) (py_range 0 16 2) (map (\<lambda>n. n mod 256) []) =
     (case unswap_loop bs (py_range 0 16 2) [] of Inl e \<Rightarrow> Inl e | Inr t \<Rightarrow> Inr (map (\<lambda>n. n mod 256) t))"
    by (rule unswap_loop_map)
  then show ?thesis
    by (simp add: decode_bytes_def decode_rows_mod split: sum.splits)
qed

lemma hex_changed_decode_bytes:
  assumes "length (split (hex_entry self)) = 16" "parse_all (split (hex_entry self)) = Some bs"
  shows "hex_changed self = decode_bytes bs self"
  using assms by (simp add: hex_changed_def Let_def split_strip)

text \<open>
  Claim C10. What the decoder does with the parsed values depends only on each value
  modulo 256: when the text has 16 tokens that parse to the values \<open>bs\<close>,
  \<^const>\<open>hex_changed\<close> gives the outcome and the grid it would give for the values
  \<open>bs\<close> reduced modulo 256; and any two lists of parsed values that agree modulo 256
  position by position are decoded alike.
\<close>

theorem decode_depends_on_mod_256:
  "(length (split (hex_entry self)) = 16 \<and> parse_all (split (hex_entry self)) = Some bs \<longrightarrow>
      hex_changed self = decode_bytes (map (\<lambda>n. n mod 256) bs) self) \<and>
   (map (\<lambda>n. n mod 256) bs = map (\<lambda>n. n mod 256) bs' \<longrightarrow>
      decode_bytes bs self = decode_bytes bs' self)"
proof (intro conjI impI)
  assume "length (split (hex_entry self)) = 16 \<and> parse_all (split (hex_entry self)) = Some bs"
  then have "hex_changed self = decode_bytes bs self"
    by (simp add: hex_changed_decode_bytes)
  then show "hex_changed self = decode_bytes (map (\<lambda>n. n mod 256) bs) self"
    by (simp only: decode_bytes_map_mod)
next
  assume eq: "map (\<lambda>n. n mod 256) bs = map (\<lambda>n. n mod 256) bs'"
  have "decode_bytes bs self = decode_bytes (map (\<lambda>n. n mod 256) bs) self"
    by (simp only: decode_bytes_map_mod)
  also have "\<dots> = decode_bytes (map (\<lambda>n. n mod 256) bs') self"
    by (simp only: eq)
  also have "\<dots> = decode_bytes bs' self"
    by (simp only: decode_bytes_map_mod)
  finally show "decode_bytes bs self = decode_bytes bs' self" .
qed

theorem decode_depends_on_mod_256_witness:
  "length (split (hex_entry \<lparr>grid_data = blank_grid, hex_entry = ''100 -1 1ff 0xF 00 00 00 00 00 00 00 00 00 00 00 fff''\<rparr>)) = 16 \<and>
   parse_all (split (hex_entry \<lparr>grid_data = blank_grid, hex_entry = ''100 -1 1ff 0xF 00 00 00 00 00 00 00 00 00 00 00 fff''\<rparr>)) =
     Some [256, - 1, 511, 15, 0, 0, 0, 0, 0, 0, 0, 0, 0, 0, 0, 4095] \<and>
   map (\<lambda>n. n mod 256) [256, - 1, 511, 15, 0, 0, 0, 0, 0, 0, 0, 0, 0, 0, 0, 4095] =
     map (\<lambda>n. n mod 256) [0, 255, 255, 271, 0, 0, 0, 0, 0, 0, 0, 0, 0, 0, 0, 255 :: int] \<and>
   hex_changed \<lparr>grid_data = blank_grid, hex_entry = ''100 -1 1ff 0xF 00 00 00 00 00 00 00 00 00 00 00 fff''\<rparr> =
     decode_bytes (map (\<lambda>n. n mod 256) [256, - 1, 511, 15, 0, 0, 0, 0, 0, 0, 0, 0, 0, 0, 0, 4095])
       \<lparr>grid_data = blank_grid, hex_entry = ''100 -1 1ff 0xF 00 00 00 00 00 00 00 00 00 00 00 fff''\<rparr> \<and>
   decode_bytes [256, - 1, 511, 15, 0, 0, 0, 0, 0, 0, 0, 0, 0, 0, 0, 4095]
       \<lparr>grid_data = blank_grid, hex_entry = ''100 -1 1ff 0xF 00 00 00 00 00 00 00 00 00 00 00 fff''\<rparr> =
     decode_bytes [0, 255, 255, 271, 0, 0, 0, 0, 0, 0, 0, 0, 0, 0, 0, 255]
       \<lparr>grid_data = blank_grid, hex_entry = ''100 -1 1ff 0xF 00 00 00 00 00 00 00 00 00 00 00 fff''\<rparr>"
proof -
  have a: "length (split (hex_entry \<lparr>grid_data = blank_grid, hex_entry = ''100 -1 1ff 0xF 00 00 00 00 00 00 00 00 00 00 00 fff''\<rparr>)) = 16"
    by code_simp
  have b: "parse_all (split (hex_entry \<lparr>grid_data = blank_grid, hex_entry = ''100 -1 1ff 0xF 00 00 00 00 00 00 00 00 00 00 00 fff''\<rparr>)) =
     Some [256, - 1, 511, 15, 0, 0, 0, 0, 0, 0, 0, 0, 0, 0, 0, 4095]"
    by code_simp
  have c: "map (\<lambda>n. n mod 256) [256, - 1, 511, 15, 0, 0, 0, 0, 0, 0, 0, 0, 0, 0, 0, 4095] =
     map (\<lambda>n. n mod 256) [0, 255, 255, 271, 0, 0, 0, 0, 0, 0, 0, 0, 0, 0, 0, 255 :: int]"
    by simp
  note t = decode_depends_on_mod_256 [of "\<lparr>grid_data = blank_grid, hex_entry = ''100 -1 1ff 0xF 00 00 00 00 00 00 00 00 00 00 00 fff''\<rparr>"
      "[256, - 1, 511, 15, 0, 0, 0, 0, 0, 0, 0, 0, 0, 0, 0, 4095]"
      "[0, 255, 255, 271, 0, 0, 0, 0, 0, 0, 0, 0, 0, 0, 0, 255]"]
  note d = t [THEN conjunct1, THEN mp, OF conjI [OF a b]]
  note e = t [THEN conjunct2, THEN mp, OF c]
  from a b c d e show ?thesis by (intro conjI)
qed

section \<open>The encoder refines its specification\<close>

lemma plane_snoc: "plane sel row (xs @ [x]) a = plane sel row xs a OR push_bit (7 - x) (sel (row ! x))"
  by (simp add: plane_def)

lemma plane_eq_sum:
  assumes "\<forall>c. sel c \<in> {0, 1}" "i \<le> 8"
  shows "plane sel row [0..<i] 0 = sum_list (map (\<lambda>x. sel (row ! x) * 2 ^ (7 - x)) [0..<i])"
  using assms(2)
proof (induction i)
  case 0
  then show ?case by (simp add: plane_simps)
next
  case (Suc i)
  let ?a = "plane sel row [0..<i] 0"
  let ?b = "push_bit (7 - i) (sel (row ! i))"
  have "?a AND ?b = 0"
  proof (rule bit_eqI)
    fix n
    have "\<not> (bit ?a n \<and> bit ?b n)"
    proof
      assume a: "bit ?a n \<and> bit ?b n"
      then have "\<exists>x \<in> set [0..<i]. 7 - x = n \<and> sel (row ! x) = 1"
        using assms(1) by (simp add: bit_plane)
      then obtain x where "x < i" "7 - x = n" by auto
      moreover from a assms(1) have "n = 7 - i" by (auto simp add: bit_push_bit_iff bit_01)
      ultimately show False using Suc.prems by arith
    qed
    then show "bit (?a AND ?b) n = bit (0::int) n" by (simp add: bit_and_iff)
  qed
  then have "?a OR ?b = ?a + ?b" by (simp add: disjunctive_add_eq_or)
  with Suc show ?case by (simp add: plane_snoc push_bit_eq_mult)
qed

lemma lo_of_spec: "c \<in> {0, 1, 2, 3} \<Longrightarrow> lo_of c = fst (spec_toBits c)"
  by (auto simp add: lo_of_simps spec_toBits_def)

lemma hi_of_spec: "c \<in> {0, 1, 2, 3} \<Longrightarrow> hi_of c = snd (spec_toBits c)"
  by (auto simp add: hi_of_simps spec_toBits_def)

lemma plane_spec:
  assumes "length row = 8" "\<forall>x < 8. row ! x \<in> {0, 1, 2, 3}"
  shows "plane lo_of row [0..<8] 0 = spec_plane_byte (\<lambda>x. fst (spec_toBits (row ! x)))"
    and "plane hi_of row [0..<8] 0 = spec_plane_byte (\<lambda>x. snd (spec_toBits (row ! x)))"
proof -
  have "plane lo_of row [0..<8] 0 = sum_list (map (\<lambda>x. lo_of (row ! x) * 2 ^ (7 - x)) [0..<8])"
    using lo_of_01 by (intro plane_eq_sum) simp_all
  also have "\<dots> = sum_list (map (\<lambda>x. fst (spec_toBits (row ! x)) * 2 ^ (7 - x)) [0..<8])"
    using assms(2) by (intro arg_cong [where f = sum_list] map_cong refl) (simp add: lo_of_spec)
  finally show "plane lo_of row [0..<8] 0 = spec_plane_byte (\<lambda>x. fst (spec_toBits (row ! x)))"
    by (simp only: spec_plane_byte_def)
  have "plane hi_of row [0..<8] 0 = sum_list (map (\<lambda>x. hi_of (row ! x) * 2 ^ (7 - x)) [0..<8])"
    using hi_of_01 by (intro plane_eq_sum) simp_all
  also have "\<dots> = sum_list (map (\<lambda>x. snd (spec_toBits (row ! x)) * 2 ^ (7 - x)) [0..<8])"
    using assms(2) by (intro arg_cong [where f = sum_list] map_cong refl) (simp add: hi_of_spec)
  finally show "plane hi_of row [0..<8] 0 = spec_plane_byte (\<lambda>x. snd (spec_toBits (row ! x)))"
    by (simp only: spec_plane_byte_def)
qed

lemma tile_of_spec: "valid_grid g \<Longrightarrow> tile_of g = spec_tile g"
  unfolding tile_of_def spec_tile_def
  by (intro arg_cong [where f = concat] map_cong refl)
    (use valid_grid_nth in \<open>simp add: plane_spec del: upt_Suc\<close>)

lemma swap_pairs_spec: "length b = 16 \<Longrightarrow> swap_pairs b = spec_swap b"
  by (erule list16) (simp add: swap_pairs_def upt8)

lemma format_02X_spec:
  assumes "0 \<le> b" "b < 256"
  shows "format_02X b = spec_hex_token b"
proof -
  from assms have "nat (b div 16) = nat b div 16" "nat (b mod 16) = nat b mod 16"
    by (simp_all add: nat_div_distrib nat_mod_distrib)
  moreover from assms have "nat b div 16 < 16" by simp
  ultimately show ?thesis
    by (simp add: format_02X_byte [OF assms] spec_hex_token_def hex_digit_def)
qed

lemma join_spec: "join '' '' ts = spec_spaced ts"
  by (induction ts rule: spec_spaced.induct) simp_all

text \<open>
  Claim C2. On every 8x8 grid with cells among 0, 1, 2, 3 the encoder returns (it raises
  nothing) exactly the text of the reference definition \<^const>\<open>spec_encode\<close>; its tile
  bytes are the sixteen reference tile bytes.
\<close>

theorem encode_refines_spec:
  assumes "valid_grid g"
  shows "hex_display g = Inr (spec_encode g) \<and>
    grid_to_tile_bytes g = Inr (spec_tile g) \<and> length (spec_tile g) = 16"
proof -
  have t: "tile_of g = spec_tile g" using assms by (rule tile_of_spec)
  then have len: "length (spec_tile g) = 16" using length_tile_of [of g] by simp
  have "map format_02X (swap_pairs (tile_of g)) = map spec_hex_token (swap_pairs (tile_of g))"
    by (intro map_cong refl format_02X_spec) (use swap_pairs_tile_of_byte in blast)+
  moreover have "swap_pairs (tile_of g) = spec_swap (spec_tile g)"
    using len by (simp only: t swap_pairs_spec)
  ultimately have "map format_02X (swap_pairs (tile_of g)) = map spec_hex_token (spec_swap (spec_tile g))"
    by (simp only:)
  then have "hex_display g = Inr (spec_encode g)"
    using assms by (simp only: hex_display_valid join_spec spec_encode_def)
  with assms t len show ?thesis by (simp add: grid_to_tile_bytes_valid)
qed

theorem encode_refines_spec_witness:
  "valid_grid example_grid \<and>
   hex_display example_grid = Inr (spec_encode example_grid) \<and>
   spec_encode example_grid = ''99 CC FF 00 FF AA 00 F0 FF FF 00 00 99 33 7E FF''"
proof -
  have a: "valid_grid example_grid" by code_simp
  have b: "spec_encode example_grid = ''99 CC FF 00 FF AA 00 F0 FF FF 00 00 99 33 7E FF''"
    by code_simp
  from encode_refines_spec [OF a] a b show ?thesis by simp
qed

section \<open>Round trip from a hex text\<close>








section \<open>Which tokens the parser accepts\<close>


















end
